theory Spec2Isabelle
  imports Main "HOL-Library.Sublist"
begin

section \<open>The link sanitizer installed by the constructor (Editor.js, lines 32-40)\<close>

text \<open>
  JavaScript strings are modelled as \<open>string\<close>. \<open>s.indexOf(t)\<close> is the least position
  at which \<open>t\<close> occurs in \<open>s\<close>, and \<open>-1\<close> when there is none; \<open>indexOf_from\<close> scans
  from position \<open>k\<close>.
\<close>

fun indexOf_from :: "string \<Rightarrow> string \<Rightarrow> int \<Rightarrow> int" where
  "indexOf_from [] t k = (if t = [] then k else - 1)"
| "indexOf_from (c # s) t k =
     (if take (length t) (c # s) = t then k else indexOf_from s t (k + 1))"

definition indexOf :: "string \<Rightarrow> string \<Rightarrow> int" where
  "indexOf s t = indexOf_from s t 0"

text \<open>
  \<^verbatim>\<open>
  Link.sanitize = function(url) {
      const urlStartsWithHttp = url.indexOf("http") === 0;
      if(!urlStartsWithHttp) { url = `https://${url}`; }
      return url;
  };
  \<close>
\<close>

definition Link_sanitize :: "string \<Rightarrow> string" where
  "Link_sanitize url =
     (let urlStartsWithHttp = (indexOf url ''http'' = 0)
      in if \<not> urlStartsWithHttp then ''https://'' @ url else url)"

section \<open>JavaScript values, exceptions\<close>

text \<open>
  The arguments the host passes are JavaScript values. A parameter the caller omits is
  \<open>JUndefined\<close>: the function cannot tell an omitted argument from an explicit
  \<open>undefined\<close>. Numbers are the integers and \<open>NaN\<close>; \<open>-0\<close> is not told apart from
  \<open>0\<close> (both are falsy and both are \<open>=== 0\<close>). \<open>JObj\<close> is a reference to an object
  whose contents the facade never inspects (the options blob, a selection range).
\<close>

datatype jsval = JUndefined | JNull | JBool bool | JNum int | JNaN | JStr string | JObj nat

fun truthy :: "jsval \<Rightarrow> bool" where
  "truthy JUndefined = False"
| "truthy JNull = False"
| "truthy (JBool b) = b"
| "truthy (JNum n) = (n \<noteq> 0)"
| "truthy JNaN = False"
| "truthy (JStr s) = (s \<noteq> [])"
| "truthy (JObj a) = True"

datatype exn = Error string | TypeError string

section \<open>The DOM\<close>

text \<open>
  An element has a tag name, a class list, its other attributes, the declarations of its
  inline style (property and value, in order) and its children. A node inside a tree is
  addressed by its path from the root: the child indices to follow.
\<close>

datatype node =
    Element string "string list" "(string \<times> string) list" "(string \<times> string) list" "node list"
  | Text string

datatype selector = ClassSel string | TagSel string

fun matches :: "selector \<Rightarrow> node \<Rightarrow> bool" where
  "matches (ClassSel c) (Element tg cl at st cs) = (c \<in> set cl)"
| "matches (TagSel t) (Element tg cl at st cs) = (tg = t)"
| "matches sel (Text s) = False"

fun childNodes :: "node \<Rightarrow> node list" where
  "childNodes (Element tg cl at st cs) = cs"
| "childNodes (Text s) = []"

fun set_childNodes :: "node list \<Rightarrow> node \<Rightarrow> node" where
  "set_childNodes cs' (Element tg cl at st cs) = Element tg cl at st cs'"
| "set_childNodes cs' (Text s) = Text s"

fun inline_style :: "node \<Rightarrow> (string \<times> string) list" where
  "inline_style (Element tg cl at st cs) = st"
| "inline_style (Text s) = []"

fun restyle :: "((string \<times> string) list \<Rightarrow> (string \<times> string) list) \<Rightarrow> node \<Rightarrow> node" where
  "restyle h (Element tg cl at st cs) = Element tg cl at (h st) cs"
| "restyle h (Text s) = Text s"

fun node_at :: "node \<Rightarrow> nat list \<Rightarrow> node option" where
  "node_at n [] = Some n"
| "node_at (Element tg cl at st cs) (i # p) = (if i < length cs then node_at (cs ! i) p else None)"
| "node_at (Text s) (i # p) = None"

fun update_at :: "nat list \<Rightarrow> (node \<Rightarrow> node) \<Rightarrow> node \<Rightarrow> node" where
  "update_at [] f n = f n"
| "update_at (i # p) f (Element tg cl at st cs) =
     (if i < length cs then Element tg cl at st (cs[i := update_at p f (cs ! i)])
      else Element tg cl at st cs)"
| "update_at (i # p) f (Text s) = Text s"

text \<open>
  The paths of the descendants of a node that match a predicate, in document order (a node
  before its own descendants, siblings left to right). The node itself is not among them.
\<close>

fun paths :: "(node \<Rightarrow> bool) \<Rightarrow> node \<Rightarrow> nat list list"
  and paths_from :: "(node \<Rightarrow> bool) \<Rightarrow> nat \<Rightarrow> node list \<Rightarrow> nat list list" where
  "paths P (Text s) = []"
| "paths P (Element tg cl at st cs) = paths_from P 0 cs"
| "paths_from P i [] = []"
| "paths_from P i (c # cs) =
     (if P c then [[i]] else []) @ map ((#) i) (paths P c) @ paths_from P (Suc i) cs"

subsection \<open>Inline style\<close>

text \<open>
  The declarations of an inline style hold longhand properties, each at most once: setting
  a property that is there replaces its value in place, setting a new one appends it.
  \<open>margin\<close> and \<open>padding\<close> are shorthands for the four sides. Assigning the number \<open>0\<close> to
  a shorthand, as \<open>paragraph.style.margin = 0\<close> does, sets each of its longhands to the
  zero length, which the style holds as \<open>0px\<close>.
\<close>

fun set_decl :: "string \<Rightarrow> string \<Rightarrow> (string \<times> string) list \<Rightarrow> (string \<times> string) list" where
  "set_decl k v [] = [(k, v)]"
| "set_decl k v ((k', v') # ds) =
     (if k' = k then (k, v) # ds else (k', v') # set_decl k v ds)"

definition longhands :: "string \<Rightarrow> string list" where
  "longhands prop = map (\<lambda>side. prop @ ''-'' @ side) [''top'', ''right'', ''bottom'', ''left'']"

definition assign_zero :: "string \<Rightarrow> node \<Rightarrow> node" where
  "assign_zero prop = restyle (\<lambda>st. fold (\<lambda>k. set_decl k ''0px'') (longhands prop) st)"

text \<open>An element's inline style sets a box property to zero on every side.\<close>

definition zero_box :: "string \<Rightarrow> node \<Rightarrow> bool" where
  "zero_box prop n = list_all (\<lambda>k. map_of (inline_style n) k = Some ''0px'') (longhands prop)"

text \<open>
  Reading and writing \<open>innerHTML\<close> runs the browser's fragment serializer and parser. They
  are not part of the program: the operations take them as a parameter.
\<close>

record browser =
  fragment_serialize :: "node list \<Rightarrow> string"
  fragment_parse :: "string \<Rightarrow> node list"

section \<open>The state of the page\<close>

text \<open>
  Everything the constructor and the methods can reach: the DOM trees (a tree is
  addressed by its position in \<open>trees\<close>, a node by that address and a path), the widget
  instances of the library (\<open>quills\<close>: for each its state, which the facade never
  inspects, and the listeners registered on it), the event emitters, the library's
  registry of formats, which is shared by all its instances, and the calls made so far to
  handlers of the host. A facade holds the addresses of its mount element, its widget and
  its emitter.
\<close>

type_synonym ref = "nat \<times> nat list"

record format_class =
  sanitize :: "string \<Rightarrow> string"

datatype callback = HostFn nat | Relay nat

record listener =
  l_event :: string
  l_fn :: nat
  l_once :: bool

record 'q widget =
  q_state :: 'q
  q_listeners :: "(string \<times> callback) list"

record 'q world =
  trees :: "node list"
  quills :: "'q widget list"
  emitters :: "listener list list"
  registry :: "string \<Rightarrow> format_class option"
  invoked :: "(nat \<times> jsval list) list"

subsection \<open>DOM operations on the page\<close>

text \<open>
  A reference that points at no node of the page, because its address is not in use or
  its path leaves the tree, reads as nothing, and writing through it changes nothing.
\<close>

definition deref :: "'q world \<Rightarrow> ref \<Rightarrow> node option" where
  "deref w r = (if fst r < length (trees w) then node_at (trees w ! fst r) (snd r) else None)"

definition modify :: "ref \<Rightarrow> (node \<Rightarrow> node) \<Rightarrow> 'q world \<Rightarrow> 'q world" where
  "modify r f w = w\<lparr>trees := (trees w)[fst r := update_at (snd r) f (trees w ! fst r)]\<rparr>"

text \<open>\<open>document.createElement\<close>: a new element, attached nowhere, at a fresh address.\<close>

definition createElement :: "string \<Rightarrow> 'q world \<Rightarrow> ref \<times> 'q world" where
  "createElement tg w = ((length (trees w), []), w\<lparr>trees := trees w @ [Element tg [] [] [] []]\<rparr>)"

text \<open>
  \<open>querySelectorAll\<close> gives references to the matching descendants in document order,
  \<open>querySelector\<close> the first of them, or nothing.
\<close>

definition querySelectorAll :: "selector \<Rightarrow> ref \<Rightarrow> 'q world \<Rightarrow> ref list" where
  "querySelectorAll sel r w =
     (case deref w r of
        None \<Rightarrow> []
      | Some n \<Rightarrow> map (\<lambda>p. (fst r, snd r @ p)) (paths (matches sel) n))"

definition querySelector :: "selector \<Rightarrow> ref \<Rightarrow> 'q world \<Rightarrow> ref option" where
  "querySelector sel r w =
     (case querySelectorAll sel r w of [] \<Rightarrow> None | x # xs \<Rightarrow> Some x)"

definition get_innerHTML :: "browser \<Rightarrow> ref \<Rightarrow> 'q world \<Rightarrow> string" where
  "get_innerHTML B r w =
     fragment_serialize B (case deref w r of None \<Rightarrow> [] | Some n \<Rightarrow> childNodes n)"

definition set_innerHTML :: "browser \<Rightarrow> ref \<Rightarrow> string \<Rightarrow> 'q world \<Rightarrow> 'q world" where
  "set_innerHTML B r html w = modify r (set_childNodes (fragment_parse B html)) w"

text \<open>\<open>el.style.margin = 0\<close> and \<open>el.style.padding = 0\<close>, through a reference.\<close>

definition style_zero :: "ref \<Rightarrow> string \<Rightarrow> 'q world \<Rightarrow> 'q world" where
  "style_zero r prop w = modify r (assign_zero prop) w"

subsection \<open>The widget library\<close>

text \<open>
  The rich-text widget is a library the program calls and does not contain. Its
  constructor and its methods are a parameter of the model: \<open>lib_new\<close> is given the
  registry, the mount element, the options and the DOM, and gives an instance or throws;
  \<open>lib_call\<close> runs the method of that name with these arguments on an instance, and gives
  what the method returns or throws, the instance after the call and the DOM after it.
\<close>

record 'q quill_lib =
  lib_new :: "(string \<Rightarrow> format_class option) \<Rightarrow> nat \<Rightarrow> jsval \<Rightarrow> node list \<Rightarrow> (exn + 'q) \<times> node list"
  lib_call :: "(string \<Rightarrow> format_class option) \<Rightarrow> string \<Rightarrow> jsval list \<Rightarrow> 'q \<Rightarrow> node list \<Rightarrow>
               (exn + jsval) \<times> 'q \<times> node list"


text \<open>\<open>quill.m(args)\<close> on the instance at address \<open>q\<close>.\<close>

definition quill_call :: "'q quill_lib \<Rightarrow> nat \<Rightarrow> string \<Rightarrow> jsval list \<Rightarrow> 'q world \<Rightarrow>
    (exn + jsval) \<times> 'q world" where
  "quill_call L q m args w =
     (case lib_call L (registry w) m args (q_state (quills w ! q)) (trees w) of
        (r, q', d) \<Rightarrow> (r, w\<lparr>trees := d, quills := (quills w)[q := (quills w ! q)\<lparr>q_state := q'\<rparr>]\<rparr>))"



subsection \<open>The event bus\<close>


definition ee_add :: "nat \<Rightarrow> listener \<Rightarrow> 'q world \<Rightarrow> 'q world" where
  "ee_add em l w = w\<lparr>emitters := (emitters w)[em := emitters w ! em @ [l]]\<rparr>"


definition ee_once :: "nat \<Rightarrow> string \<Rightarrow> nat \<Rightarrow> 'q world \<Rightarrow> 'q world" where
  "ee_once em ev h w = ee_add em \<lparr>l_event = ev, l_fn = h, l_once = True\<rparr> w"





section \<open>The Editor facade (Editor.js)\<close>

record editor =
  targetEl :: nat
  this_quill :: nat
  this_emitter :: nat


text \<open>\<open>getHTML\<close>, lines 48-64.\<close>

definition getHTML :: "browser \<Rightarrow> editor \<Rightarrow> 'q world \<Rightarrow> (exn + string) \<times> 'q world" where
  "getHTML B this w =
     (case querySelector (ClassSel ''ql-editor'') (targetEl this, []) w of
        None \<Rightarrow> (Inl (Error ''Couldn't find editor contents''), w)
      | Some editorContentDiv \<Rightarrow>
          (let (tmpDiv, w1) = createElement ''div'' w;
               w2 = set_innerHTML B tmpDiv (get_innerHTML B editorContentDiv w1) w1;
               w3 = fold (\<lambda>paragraph w. style_zero paragraph ''padding'' (style_zero paragraph ''margin'' w))
                      (querySelectorAll (TagSel ''p'') tmpDiv w2) w2
           in (Inr (get_innerHTML B tmpDiv w3), w3)))"

text \<open>
  A method with no \<open>return\<close> statement gives \<open>undefined\<close>, unless the call in its body
  throws.
\<close>

definition no_return :: "(exn + 'a) \<times> 's \<Rightarrow> (exn + jsval) \<times> 's" where
  "no_return rw = (case rw of (Inl x, w) \<Rightarrow> (Inl x, w) | (Inr r, w) \<Rightarrow> (Inr JUndefined, w))"

text \<open>\<open>setHTML\<close>, lines 70-73: \<open>html = html || ""\<close>, then \<open>pasteHTML(html)\<close>.\<close>

definition setHTML :: "'q quill_lib \<Rightarrow> editor \<Rightarrow> jsval \<Rightarrow> 'q world \<Rightarrow> (exn + jsval) \<times> 'q world" where
  "setHTML L this html w =
     (let html = (if truthy html then html else JStr [])
      in no_return (quill_call L (this_quill this) ''pasteHTML'' [html] w))"

text \<open>\<open>getLength\<close>, lines 146-148.\<close>

definition getLength :: "'q quill_lib \<Rightarrow> editor \<Rightarrow> 'q world \<Rightarrow> (exn + jsval) \<times> 'q world" where
  "getLength L this w = quill_call L (this_quill this) ''getLength'' [] w"

text \<open>
  \<open>insertHTML\<close>, lines 95-100, and \<open>insertText\<close>, lines 116-122:
  \<open>if (!index && index !== 0) { index = this.getLength(); }\<close>, then the call.
\<close>

definition insertHTML :: "'q quill_lib \<Rightarrow> editor \<Rightarrow> jsval \<Rightarrow> jsval \<Rightarrow> 'q world \<Rightarrow>
    (exn + jsval) \<times> 'q world" where
  "insertHTML L this html index w =
     (case (if \<not> truthy index \<and> index \<noteq> JNum 0 then getLength L this w else (Inr index, w)) of
        (Inl x, w1) \<Rightarrow> (Inl x, w1)
      | (Inr index, w1) \<Rightarrow>
          no_return (quill_call L (this_quill this) ''pasteHTML'' [index, html] w1))"

definition insertText :: "'q quill_lib \<Rightarrow> editor \<Rightarrow> jsval \<Rightarrow> jsval \<Rightarrow> jsval \<Rightarrow> 'q world \<Rightarrow>
    (exn + jsval) \<times> 'q world" where
  "insertText L this text name index w =
     (case (if \<not> truthy index \<and> index \<noteq> JNum 0 then getLength L this w else (Inr index, w)) of
        (Inl x, w1) \<Rightarrow> (Inl x, w1)
      | (Inr index, w1) \<Rightarrow>
          no_return (quill_call L (this_quill this) ''insertText'' [index, text, name, JBool True] w1))"

text \<open>\<open>deleteText\<close>, lines 129-131.\<close>

definition deleteText :: "'q quill_lib \<Rightarrow> editor \<Rightarrow> jsval \<Rightarrow> jsval \<Rightarrow> 'q world \<Rightarrow>
    (exn + jsval) \<times> 'q world" where
  "deleteText L this index len w =
     no_return (quill_call L (this_quill this) ''deleteText'' [index, len] w)"



definition once :: "editor \<Rightarrow> string \<Rightarrow> nat \<Rightarrow> 'q world \<Rightarrow> 'q world" where
  "once this ev h w = ee_once (this_emitter this) ev h w"


section \<open>Specification of the paragraph loop\<close>

text \<open>
  What the loop of \<open>getHTML\<close> is meant to compute, written as a recursion over the tree:
  \<open>map_desc P f\<close> applies \<open>f\<close> to every descendant that satisfies \<open>P\<close> and leaves every
  other node as it is. \<open>zero_decls\<close> is the effect of the two assignments of the loop body
  on a style, and \<open>normalized B ed\<close> the detached element after the loop, for the editable
  element \<open>ed\<close>.
\<close>

fun map_desc :: "(node \<Rightarrow> bool) \<Rightarrow> (node \<Rightarrow> node) \<Rightarrow> node \<Rightarrow> node" where
  "map_desc P f (Text s) = Text s"
| "map_desc P f (Element tg cl at st cs) =
     Element tg cl at st (map (\<lambda>c. if P c then f (map_desc P f c) else map_desc P f c) cs)"

definition zero_decls :: "(string \<times> string) list \<Rightarrow> (string \<times> string) list" where
  "zero_decls st = fold (\<lambda>k. set_decl k ''0px'') (longhands ''padding'')
                      (fold (\<lambda>k. set_decl k ''0px'') (longhands ''margin'') st)"

definition normalized :: "browser \<Rightarrow> node \<Rightarrow> node" where
  "normalized B ed =
     map_desc (matches (TagSel ''p'')) (restyle zero_decls)
       (Element ''div'' [] [] [] (fragment_parse B (fragment_serialize B (childNodes ed))))"

text \<open>The editable element is found: some descendant of the mount has the class.\<close>

definition editable_found :: "editor \<Rightarrow> 'q world \<Rightarrow> bool" where
  "editable_found this w =
     (\<exists>p n. p \<noteq> [] \<and> deref w (targetEl this, p) = Some n \<and>
            matches (ClassSel ''ql-editor'') n)"

section \<open>A page to run the operations on\<close>

text \<open>
  Stand-ins for the parameters, to evaluate the operations on examples. The library
  stand-in keeps, as the state of an instance, the calls it has received; its \<open>getLength\<close>
  answers \<open>12\<close>. The browser stand-in writes a tag with its classes and style around the
  children, and parses by looking the text up in a table.
\<close>

definition demo_lib :: "(string \<times> jsval list) list quill_lib" where
  "demo_lib =
     \<lparr>lib_new = (\<lambda>reg el options d. (Inr [], d)),
      lib_call = (\<lambda>reg m args q d.
         (Inr (if m = ''getLength'' then JNum 12 else JUndefined), q @ [(m, args)], d))\<rparr>"

fun demo_serialize :: "node \<Rightarrow> string" where
  "demo_serialize (Text s) = s"
| "demo_serialize (Element tg cl at st cs) =
     ''<'' @ tg @ concat (map (\<lambda>c. '' class='' @ c) cl) @
     (if st = [] then [] else '' style='' @ concat (map (\<lambda>(k, v). k @ '':'' @ v @ '';'') st)) @
     ''>'' @ concat (map demo_serialize cs) @ ''</'' @ tg @ ''>''"

definition demo_content :: "node list" where
  "demo_content =
     [Element ''p'' [] [] [] [Text ''Hello''],
      Element ''h1'' [] [] [(''margin-top'', ''5px'')] [Text ''World'']]"

definition demo_browser :: browser where
  "demo_browser =
     \<lparr>fragment_serialize = (\<lambda>ns. concat (map demo_serialize ns)),
      fragment_parse = (\<lambda>s. if s = ''<p>Hello</p><h1 style=margin-top:5px;>World</h1>''
                             then demo_content else [])\<rparr>"

definition demo_world :: "(string \<times> jsval list) list world" where
  "demo_world =
     \<lparr>trees = [Element ''div'' [''ql-container''] [] []
                 [Element ''div'' [''ql-editor''] [(''contenteditable'', ''true'')] [] demo_content]],
      quills = [\<lparr>q_state = [], q_listeners = []\<rparr>],
      emitters = [[]],
      registry = [''formats/link'' \<mapsto> \<lparr>sanitize = (\<lambda>url. url)\<rparr>],
      invoked = []\<rparr>"

definition bare_world :: "(string \<times> jsval list) list world" where
  "bare_world = demo_world\<lparr>trees := [Element ''div'' [''ql-container''] [] [] [Text ''loading'']]\<rparr>"

definition demo_editor :: editor where
  "demo_editor = \<lparr>targetEl = 0, this_quill = 0, this_emitter = 0\<rparr>"

section \<open>Properties of the link sanitizer\<close>

lemma indexOf_from_range: "0 \<le> k \<Longrightarrow> indexOf_from s t k = - 1 \<or> k \<le> indexOf_from s t k"
proof (induction s arbitrary: k)
  case Nil
  then show ?case by simp
next
  case (Cons c s)
  from Cons.IH [of "k + 1"] Cons.prems show ?case by auto
qed

lemma indexOf_from_start:
  assumes "0 \<le> k"
  shows "indexOf_from s t k = k \<longleftrightarrow> prefix t s"
proof (cases s)
  case Nil
  with assms show ?thesis by auto
next
  case (Cons c s')
  show ?thesis
  proof (cases "take (length t) (c # s') = t")
    case True
    then have "prefix t (c # s')" by (metis take_is_prefix)
    with True Cons show ?thesis by simp
  next
    case False
    then have np: "\<not> prefix t (c # s')"
      by (auto simp: prefix_def)
    from assms indexOf_from_range [of "k + 1" s' t]
    have "indexOf_from s' t (k + 1) \<noteq> k" by auto
    with False np Cons show ?thesis by simp
  qed
qed

lemma indexOf_zero: "indexOf s t = 0 \<longleftrightarrow> prefix t s"
  unfolding indexOf_def using indexOf_from_start [of 0 s t] by simp

lemma sanitize_prefix:
  "Link_sanitize url = (if prefix ''http'' url then url else ''https://'' @ url)"
  by (simp add: Link_sanitize_def indexOf_zero)

lemma http_of_scheme:
  "prefix ''http://'' url \<or> prefix ''https://'' url \<Longrightarrow> prefix ''http'' url"
  by (auto simp: prefix_def)

text \<open>
  Claim C1, as the code has it. The test the sanitizer makes is whether the url begins with
  the four characters \<open>http\<close>: such a url (in particular every url beginning with
  \<open>http://\<close> or \<open>https://\<close>) is returned unchanged, every other url is returned with
  \<open>https://\<close> prepended once, and sanitizing a sanitized url changes nothing.
\<close>

theorem sanitize_spec:
  "(prefix ''http'' url \<longrightarrow> Link_sanitize url = url) \<and>
   (prefix ''http://'' url \<or> prefix ''https://'' url \<longrightarrow> Link_sanitize url = url) \<and>
   (\<not> prefix ''http'' url \<longrightarrow> Link_sanitize url = ''https://'' @ url) \<and>
   Link_sanitize (Link_sanitize url) = Link_sanitize url"
proof -
  have "prefix ''http'' (''https://'' @ url)" by (simp add: prefix_def)
  then show ?thesis
    using http_of_scheme [of url] by (auto simp: sanitize_prefix)
qed

text \<open>
  C1 at \<open>example.com\<close>, which gets the prefix, and at \<open>http://example.com\<close>, which is kept.
\<close>

theorem sanitize_spec_witness:
  "\<not> prefix ''http'' ''example.com'' \<and>
   Link_sanitize ''example.com'' = ''https://example.com'' \<and>
   prefix ''http://'' ''http://example.com'' \<and>
   Link_sanitize ''http://example.com'' = ''http://example.com'' \<and>
   Link_sanitize (Link_sanitize ''example.com'') = ''https://example.com''"
proof -
  have np: "\<not> prefix ''http'' ''example.com''" by (simp add: prefix_def)
  have sp: "prefix ''http://'' ''http://example.com''" by (simp add: prefix_def)
  from np sanitize_spec [of "''example.com''"]
  have a: "Link_sanitize ''example.com'' = ''https://example.com''" by simp
  from sanitize_spec [of "''example.com''"]
  have "Link_sanitize (Link_sanitize ''example.com'') = Link_sanitize ''example.com''" by blast
  with a have b: "Link_sanitize (Link_sanitize ''example.com'') = ''https://example.com''"
    by (simp only:)
  from sp sanitize_spec [of "''http://example.com''"]
  have c: "Link_sanitize ''http://example.com'' = ''http://example.com''" by blast
  from np a sp c b show ?thesis by blast
qed

text \<open>
  Claim C1, as the specification words it, fails: \<open>httpbin.org\<close> begins with neither
  \<open>http://\<close> nor \<open>https://\<close>, and the sanitizer returns it as it is, without the
  secure scheme prefix.
\<close>

theorem sanitize_scheme_counterexample:
  "\<not> prefix ''http://'' ''httpbin.org'' \<and> \<not> prefix ''https://'' ''httpbin.org'' \<and>
   Link_sanitize ''httpbin.org'' = ''httpbin.org'' \<and>
   Link_sanitize ''httpbin.org'' \<noteq> ''https://httpbin.org''"
  by (simp add: sanitize_prefix prefix_def)

section \<open>The default of the insertion index\<close>

text \<open>The values that pass the guard \<open>!index && index !== 0\<close>.\<close>

lemma falsy_not_zero:
  "(\<not> truthy index \<and> index \<noteq> JNum 0) \<longleftrightarrow>
   index \<in> {JUndefined, JNull, JBool False, JNaN, JStr []}"
  by (cases index) auto

lemmas demo_defs = demo_lib_def demo_browser_def demo_content_def demo_world_def bare_world_def
  demo_editor_def

text \<open>
  Claim C2, as the code has it. \<open>insertHTML\<close> and \<open>insertText\<close> take the result of
  \<open>getLength()\<close> as the insertion index when the index is omitted (\<open>undefined\<close>) and also
  when it is \<open>null\<close>, \<open>false\<close>, \<open>NaN\<close> or the empty string. Every other index, the number
  \<open>0\<close> among them, goes to the widget as it was given.
\<close>

theorem insert_index_default:
  "insertHTML L this html index w =
     (if index \<in> {JUndefined, JNull, JBool False, JNaN, JStr []}
      then (case getLength L this w of
              (Inl x, w1) \<Rightarrow> (Inl x, w1)
            | (Inr n, w1) \<Rightarrow> no_return (quill_call L (this_quill this) ''pasteHTML'' [n, html] w1))
      else no_return (quill_call L (this_quill this) ''pasteHTML'' [index, html] w)) \<and>
   insertText L this txt name index w =
     (if index \<in> {JUndefined, JNull, JBool False, JNaN, JStr []}
      then (case getLength L this w of
              (Inl x, w1) \<Rightarrow> (Inl x, w1)
            | (Inr n, w1) \<Rightarrow>
                no_return (quill_call L (this_quill this) ''insertText'' [n, txt, name, JBool True] w1))
      else no_return (quill_call L (this_quill this) ''insertText'' [index, txt, name, JBool True] w))"
  unfolding insertHTML_def insertText_def falsy_not_zero by simp

text \<open>
  C2 on the demo page, read from the calls the widget received: with the index omitted the
  widget is asked for its length and pastes at \<open>12\<close>; with index \<open>0\<close> and index \<open>3\<close> it
  is given that index.
\<close>

theorem insert_index_default_witness:
  "map q_state (quills (snd (insertHTML demo_lib demo_editor (JStr ''x'') JUndefined demo_world))) =
     [[(''getLength'', []), (''pasteHTML'', [JNum 12, JStr ''x''])]] \<and>
   map q_state (quills (snd (insertHTML demo_lib demo_editor (JStr ''x'') (JNum 0) demo_world))) =
     [[(''pasteHTML'', [JNum 0, JStr ''x''])]] \<and>
   map q_state (quills (snd
       (insertText demo_lib demo_editor (JStr ''x'') (JStr ''placeholder'') (JNum 3) demo_world))) =
     [[(''insertText'', [JNum 3, JStr ''x'', JStr ''placeholder'', JBool True])]]"
  using insert_index_default [of demo_lib demo_editor "JStr ''x''" JUndefined demo_world]
    insert_index_default [of demo_lib demo_editor "JStr ''x''" "JNum 0" demo_world]
    insert_index_default [of demo_lib demo_editor _ "JNum 3" demo_world "JStr ''x''" "JStr ''placeholder''"]
  by (simp add: getLength_def quill_call_def no_return_def demo_lib_def demo_editor_def
      demo_world_def)

text \<open>
  Claim C2, as the specification words it, fails: an index that is supplied, \<open>null\<close> or
  \<open>NaN\<close> or the empty string, is treated as an omitted one. The widget is asked for its
  length and is given \<open>12\<close> as the index, not the value supplied.
\<close>

theorem insert_index_null_counterexample:
  "insertHTML demo_lib demo_editor (JStr ''x'') JNull demo_world =
     insertHTML demo_lib demo_editor (JStr ''x'') JUndefined demo_world \<and>
   map q_state (quills (snd (insertHTML demo_lib demo_editor (JStr ''x'') JNull demo_world))) =
     [[(''getLength'', []), (''pasteHTML'', [JNum 12, JStr ''x''])]] \<and>
   map q_state (quills (snd (insertHTML demo_lib demo_editor (JStr ''x'') JNaN demo_world))) =
     [[(''getLength'', []), (''pasteHTML'', [JNum 12, JStr ''x''])]] \<and>
   map q_state (quills (snd
       (insertText demo_lib demo_editor (JStr ''x'') (JStr ''placeholder'') (JStr []) demo_world))) =
     [[(''getLength'', []), (''insertText'', [JNum 12, JStr ''x'', JStr ''placeholder'', JBool True])]]"
  by (simp add: insertHTML_def insertText_def getLength_def quill_call_def no_return_def
      demo_lib_def demo_editor_def demo_world_def)

section \<open>Setting the content from an absent value\<close>

text \<open>
  Claim C3. \<open>setHTML\<close> with \<open>undefined\<close> or \<open>null\<close> is \<open>setHTML\<close> with the empty
  string: the same outcome and the same page afterwards, which are those of the widget's
  \<open>pasteHTML("")\<close>. The facade adds no failure of its own.
\<close>

theorem setHTML_absent:
  assumes "html = JUndefined \<or> html = JNull"
  shows "setHTML L this html w = setHTML L this (JStr []) w \<and>
         setHTML L this html w =
           no_return (quill_call L (this_quill this) ''pasteHTML'' [JStr []] w)"
  using assms by (auto simp: setHTML_def)

text \<open>C3 on the demo page: the widget receives one call, \<open>pasteHTML("")\<close>.\<close>

theorem setHTML_absent_witness:
  "setHTML demo_lib demo_editor JNull demo_world =
     setHTML demo_lib demo_editor (JStr []) demo_world \<and>
   fst (setHTML demo_lib demo_editor JUndefined demo_world) = Inr JUndefined \<and>
   map q_state (quills (snd (setHTML demo_lib demo_editor JUndefined demo_world))) =
     [[(''pasteHTML'', [JStr []])]]"
proof -
  have a: "setHTML demo_lib demo_editor JNull demo_world =
      setHTML demo_lib demo_editor (JStr []) demo_world"
    using setHTML_absent [of JNull demo_lib demo_editor demo_world] by simp
  have "JUndefined = JUndefined \<or> JUndefined = JNull" by simp
  from setHTML_absent [OF this, of demo_lib demo_editor demo_world]
  have b: "setHTML demo_lib demo_editor JUndefined demo_world =
      no_return (quill_call demo_lib (this_quill demo_editor) ''pasteHTML'' [JStr []] demo_world)"
    by blast
  show ?thesis
    unfolding b using a
    by (simp add: quill_call_def no_return_def demo_lib_def demo_editor_def demo_world_def)
qed

section \<open>Methods that forward to the widget\<close>

text \<open>
  \<open>deleteText\<close> and \<open>getLength\<close> hand their arguments to the widget and add nothing:
  the length read after a deletion is the answer of the widget's \<open>getLength\<close> in the
  state its \<open>deleteText\<close> left.
\<close>

lemma deleteText_then_getLength:
  "getLength L this (snd (deleteText L this index len w)) =
   quill_call L (this_quill this) ''getLength'' []
     (snd (quill_call L (this_quill this) ''deleteText'' [index, len] w))"
  by (simp add: getLength_def deleteText_def no_return_def split: prod.splits sum.splits)

section \<open>The loop over the paragraphs\<close>

lemma matches_restyle [simp]: "matches sel (restyle h n) = matches sel n"
  by (cases n; cases sel) simp_all

lemma childNodes_restyle [simp]: "childNodes (restyle h n) = childNodes n"
  by (cases n) simp_all

lemma matches_map_desc: "matches sel (map_desc P f n) = matches sel n"
  by (cases n; cases sel) simp_all

lemma restyle_comp: "restyle g (restyle f n) = restyle (g \<circ> f) n"
  by (cases n) simp_all

lemma update_at_comp: "update_at p g (update_at p f n) = update_at p (g \<circ> f) n"
proof (induction p arbitrary: n)
  case Nil
  then show ?case by simp
next
  case (Cons i p)
  then show ?case by (cases n) simp_all
qed

lemma update_at_restyle:
  "[] \<noteq> p \<Longrightarrow> update_at p f (restyle h n) = restyle h (update_at p f n)"
  by (cases p; cases n) simp_all

lemma node_at_restyle: "[] \<noteq> p \<Longrightarrow> node_at (restyle h n) p = node_at n p"
  by (cases p; cases n) simp_all

text \<open>Updates below the child \<open>i\<close> of an element are updates of that child.\<close>

lemma fold_update_child:
  "i < length cs \<Longrightarrow>
   fold (\<lambda>p. update_at p f) (map ((#) i) ps) (Element tg cl at st cs) =
   Element tg cl at st (cs[i := fold (\<lambda>p. update_at p f) ps (cs ! i)])"
  by (induction ps arbitrary: cs) simp_all

lemma paths_nonempty: "[] \<notin> set (paths P n)"
  and paths_from_nonempty: "[] \<notin> set (paths_from P i cs)"
  by (induction P n and P i cs rule: paths_paths_from.induct) auto

lemma fold_update_restyle:
  "[] \<notin> set ps \<Longrightarrow>
   fold (\<lambda>p. update_at p f) ps (restyle h n) = restyle h (fold (\<lambda>p. update_at p f) ps n)"
  by (induction ps arbitrary: n) (simp_all add: update_at_restyle)

text \<open>
  The loop against its specification, for the children \<open>cs\<close> of an element that come after
  the children \<open>pre\<close> already done.
\<close>

lemma fold_paths_from:
  assumes "\<And>c. c \<in> set cs \<Longrightarrow>
      fold (\<lambda>p. update_at p (restyle h)) (paths P c) c = map_desc P (restyle h) c"
  shows "fold (\<lambda>p. update_at p (restyle h)) (paths_from P (length pre) cs)
           (Element tg cl at st (pre @ cs)) =
         Element tg cl at st
           (pre @ map (\<lambda>c. if P c then restyle h (map_desc P (restyle h) c)
                            else map_desc P (restyle h) c) cs)"
  using assms
proof (induction cs arbitrary: pre)
  case Nil
  then show ?case by simp
next
  case (Cons c cs)
  let ?U = "\<lambda>p. update_at p (restyle h)"
  let ?g = "\<lambda>c. if P c then restyle h (map_desc P (restyle h) c) else map_desc P (restyle h) c"
  have c: "fold ?U (paths P c) c = map_desc P (restyle h) c"
    using Cons.prems by simp
  have own: "fold ?U (if P c then [[length pre]] else []) (Element tg cl at st (pre @ c # cs))
      = Element tg cl at st (pre @ (if P c then restyle h c else c) # cs)"
    by simp
  have below: "fold ?U (map ((#) (length pre)) (paths P c))
        (Element tg cl at st (pre @ (if P c then restyle h c else c) # cs))
      = Element tg cl at st (pre @ ?g c # cs)"
    using c by (simp add: fold_update_child fold_update_restyle paths_nonempty)
  have rest: "fold ?U (paths_from P (Suc (length pre)) cs) (Element tg cl at st ((pre @ [?g c]) @ cs))
      = Element tg cl at st ((pre @ [?g c]) @ map ?g cs)"
    using Cons.IH [of "pre @ [?g c]"] Cons.prems by simp
  show ?case
    using own below rest by simp
qed

lemma fold_paths:
  "fold (\<lambda>p. update_at p (restyle h)) (paths P t) t = map_desc P (restyle h) t"
proof (induction t)
  case (Element tg cl at st cs)
  from fold_paths_from [of cs h P Nil tg cl at st] Element.IH
  show ?case by simp
next
  case (Text s)
  then show ?case by simp
qed

text \<open>The paths that \<open>paths\<close> lists are those of the matching descendants.\<close>

lemma in_paths:
  "p \<in> set (paths P t) \<longleftrightarrow> p \<noteq> [] \<and> (\<exists>n. node_at t p = Some n \<and> P n)"
  and in_paths_from:
  "p \<in> set (paths_from P i cs) \<longleftrightarrow>
     (\<exists>j q n. p = (i + j) # q \<and> j < length cs \<and> node_at (cs ! j) q = Some n \<and> P n)"
proof (induction P t and P i cs arbitrary: p and p rule: paths_paths_from.induct)
  case (1 P s)
  then show ?case by (cases p) simp_all
next
  case (2 P tg cl at st cs)
  show ?case
  proof (cases p)
    case Nil
    with 2 show ?thesis by simp
  next
    case (Cons k q)
    with 2 [of p] show ?thesis by auto
  qed
next
  case (3 P i)
  then show ?case by simp
next
  case (4 P i c cs)
  have a: "p \<in> set (paths_from P i (c # cs)) \<longleftrightarrow>
      (P c \<and> p = [i]) \<or> (\<exists>q. p = i # q \<and> q \<in> set (paths P c)) \<or>
      p \<in> set (paths_from P (Suc i) cs)"
    by auto
  have b: "(\<exists>j q n. p = (i + j) # q \<and> j < length (c # cs) \<and>
              node_at ((c # cs) ! j) q = Some n \<and> P n) \<longleftrightarrow>
      (\<exists>q n. p = i # q \<and> node_at c q = Some n \<and> P n) \<or>
      (\<exists>j q n. p = (Suc i + j) # q \<and> j < length cs \<and> node_at (cs ! j) q = Some n \<and> P n)"
    (is "?L \<longleftrightarrow> ?A \<or> ?B")
  proof
    assume ?L
    then obtain j q n where h: "p = (i + j) # q" "j < length (c # cs)"
      "node_at ((c # cs) ! j) q = Some n" "P n"
      by blast
    show "?A \<or> ?B"
    proof (cases j)
      case 0
      with h show ?thesis by auto
    next
      case (Suc j')
      with h have "p = (Suc i + j') # q \<and> j' < length cs \<and> node_at (cs ! j') q = Some n \<and> P n"
        by simp
      then show ?thesis by blast
    qed
  next
    assume "?A \<or> ?B"
    then show ?L
    proof
      assume ?A
      then obtain q n where "p = i # q" "node_at c q = Some n" "P n" by blast
      then have "p = (i + 0) # q \<and> 0 < length (c # cs) \<and>
          node_at ((c # cs) ! 0) q = Some n \<and> P n"
        by simp
      then show ?L by blast
    next
      assume ?B
      then obtain j q n where "p = (Suc i + j) # q" "j < length cs"
        "node_at (cs ! j) q = Some n" "P n"
        by blast
      then have "p = (i + Suc j) # q \<and> Suc j < length (c # cs) \<and>
          node_at ((c # cs) ! Suc j) q = Some n \<and> P n"
        by simp
      then show ?L by blast
    qed
  qed
  have c: "(\<exists>q n. p = i # q \<and> node_at c q = Some n \<and> P n) \<longleftrightarrow>
      (P c \<and> p = [i]) \<or> (\<exists>q. p = i # q \<and> q \<in> set (paths P c))"
  proof -
    have "\<And>q. (\<exists>n. node_at c q = Some n \<and> P n) \<longleftrightarrow> (q = [] \<and> P c) \<or> q \<in> set (paths P c)"
      using "4.IH"(1) by (case_tac q) auto
    then show ?thesis by auto
  qed
  show ?case
    unfolding a b c using "4.IH"(2) [of p] by simp
qed

text \<open>A matching descendant of the specification's result has been through \<open>restyle\<close>.\<close>

lemma node_at_map_desc:
  "p \<noteq> [] \<Longrightarrow> node_at (map_desc (matches sel) (restyle h) t) p = Some n \<Longrightarrow>
   matches sel n \<Longrightarrow> \<exists>m. n = restyle h m \<and> matches sel m"
proof (induction p arbitrary: t)
  case Nil
  then show ?case by simp
next
  case (Cons i q)
  show ?case
  proof (cases t)
    case (Text s)
    with Cons.prems show ?thesis by simp
  next
    case (Element tg cl at st cs)
    let ?d = "map_desc (matches sel) (restyle h)"
    let ?g = "\<lambda>c. if matches sel c then restyle h (?d c) else ?d c"
    from Cons.prems Element have i: "i < length cs" and at: "node_at (?g (cs ! i)) q = Some n"
      by (auto split: if_splits)
    show ?thesis
    proof (cases q)
      case Nil
      with at have n: "n = ?g (cs ! i)" by simp
      with Cons.prems(3) have "matches sel (cs ! i)"
        by (simp add: matches_map_desc split: if_splits)
      with n have "n = restyle h (?d (cs ! i)) \<and> matches sel (?d (cs ! i))"
        by (simp add: matches_map_desc)
      then show ?thesis by blast
    next
      case (Cons j q')
      with at have "node_at (?d (cs ! i)) q = Some n"
        by (simp add: node_at_restyle split: if_splits)
      with Cons.IH [of "cs ! i"] Cons.prems(3) Cons show ?thesis by simp
    qed
  qed
qed

subsection \<open>The style after the loop body\<close>

lemma map_of_set_decl: "map_of (set_decl k v ds) k' = (if k' = k then Some v else map_of ds k')"
  by (induction ds) auto

lemma map_of_fold_set_decl:
  "map_of (fold (\<lambda>k. set_decl k v) ks ds) k' = (if k' \<in> set ks then Some v else map_of ds k')"
  by (induction ks arbitrary: ds) (auto simp: map_of_set_decl)

lemma zero_box_zero_decls:
  "zero_box ''margin'' (Element tg cl at (zero_decls st) cs) \<and>
   zero_box ''padding'' (Element tg cl at (zero_decls st) cs)"
  by (simp add: zero_box_def zero_decls_def map_of_fold_set_decl list_all_iff)

lemma normalized_paragraphs:
  assumes "p \<noteq> []" and "node_at (normalized B ed) p = Some n" and "matches (TagSel ''p'') n"
  shows "zero_box ''margin'' n \<and> zero_box ''padding'' n"
proof -
  from node_at_map_desc [OF assms(1) assms(2) [unfolded normalized_def] assms(3)]
  obtain m where m: "n = restyle zero_decls m" "matches (TagSel ''p'') m" by blast
  then show ?thesis
    by (cases m) (simp_all add: zero_box_zero_decls)
qed

text \<open>
  The two assignments change nothing on a style they have been applied to, so the
  specification of the loop, run on its own result, gives that result again.
\<close>

lemma set_decl_same: "map_of ds k = Some v \<Longrightarrow> set_decl k v ds = ds"
  by (induction ds) (auto split: if_splits)

lemma fold_set_decl_same:
  "\<forall>k \<in> set ks. map_of ds k = Some v \<Longrightarrow> fold (\<lambda>k. set_decl k v) ks ds = ds"
  by (induction ks) (simp_all add: set_decl_same)

lemma zero_decls_idem: "zero_decls (zero_decls st) = zero_decls st"
proof -
  have m: "\<forall>k \<in> set (longhands ''margin''). map_of (zero_decls st) k = Some ''0px''"
    by (simp add: zero_decls_def map_of_fold_set_decl)
  have p: "\<forall>k \<in> set (longhands ''padding''). map_of (zero_decls st) k = Some ''0px''"
    by (simp add: zero_decls_def map_of_fold_set_decl)
  have "zero_decls (zero_decls st) =
      fold (\<lambda>k. set_decl k ''0px'') (longhands ''padding'')
        (fold (\<lambda>k. set_decl k ''0px'') (longhands ''margin'') (zero_decls st))"
    by (simp only: zero_decls_def)
  also have "\<dots> = zero_decls st"
    using m p by (simp only: fold_set_decl_same)
  finally show ?thesis .
qed

lemma map_desc_restyle: "map_desc P f (restyle h n) = restyle h (map_desc P f n)"
  by (cases n) simp_all

lemma map_desc_idem:
  assumes "\<And>st. h (h st) = h st"
  shows "map_desc (matches sel) (restyle h) (map_desc (matches sel) (restyle h) t) =
         map_desc (matches sel) (restyle h) t"
proof (induction t)
  case (Element tg cl at st cs)
  have "\<And>c. c \<in> set cs \<Longrightarrow>
      (let c' = (if matches sel c then restyle h (map_desc (matches sel) (restyle h) c)
                 else map_desc (matches sel) (restyle h) c)
       in if matches sel c' then restyle h (map_desc (matches sel) (restyle h) c')
          else map_desc (matches sel) (restyle h) c') =
      (if matches sel c then restyle h (map_desc (matches sel) (restyle h) c)
       else map_desc (matches sel) (restyle h) c)"
    using Element.IH assms
    by (simp add: Let_def matches_map_desc map_desc_restyle restyle_comp comp_def)
  then show ?case by (simp add: Let_def cong: map_cong)
next
  case (Text s)
  then show ?case by simp
qed

lemma zero_paragraphs_idem:
  "map_desc (matches (TagSel ''p'')) (restyle zero_decls)
     (map_desc (matches (TagSel ''p'')) (restyle zero_decls) t) =
   map_desc (matches (TagSel ''p'')) (restyle zero_decls) t"
  by (rule map_desc_idem) (rule zero_decls_idem)

section \<open>\<open>getHTML\<close> on the page\<close>

lemma style_zero_twice:
  "style_zero r ''padding'' (style_zero r ''margin'' w) = modify r (restyle zero_decls) w"
  if "fst r < length (trees w)"
proof -
  have "(\<lambda>st. fold (\<lambda>k. set_decl k ''0px'') (longhands ''padding'')
              (fold (\<lambda>k. set_decl k ''0px'') (longhands ''margin'') st)) = zero_decls"
    by (rule ext) (simp add: zero_decls_def)
  then have "assign_zero ''padding'' \<circ> assign_zero ''margin'' = restyle zero_decls"
    by (auto simp: assign_zero_def restyle_comp comp_def)
  with that show ?thesis
    by (simp add: style_zero_def modify_def update_at_comp)
qed

text \<open>The loop writes to one tree of the page only, the one its references point into.\<close>

lemma fold_style_zero:
  "a < length (trees w) \<Longrightarrow>
   fold (\<lambda>r w. style_zero r ''padding'' (style_zero r ''margin'' w)) (map (Pair a) ps) w =
   w\<lparr>trees := (trees w)[a := fold (\<lambda>p. update_at p (restyle zero_decls)) ps (trees w ! a)]\<rparr>"
proof (induction ps arbitrary: w)
  case Nil
  then show ?case by simp
next
  case (Cons p ps)
  have len: "a < length (trees (modify (a, p) (restyle zero_decls) w))"
    using Cons.prems by (simp add: modify_def)
  from Cons.prems have "style_zero (a, p) ''padding'' (style_zero (a, p) ''margin'' w)
      = modify (a, p) (restyle zero_decls) w"
    using style_zero_twice [of "(a, p)" w] by simp
  then show ?case
    using Cons.IH [OF len] Cons.prems by (simp add: modify_def)
qed

lemma querySelector_root:
  "a < length (trees w) \<Longrightarrow>
   querySelector sel (a, []) w =
     (case paths (matches sel) (trees w ! a) of [] \<Rightarrow> None | p # ps \<Rightarrow> Some (a, p))"
  by (simp add: querySelector_def querySelectorAll_def deref_def split: list.splits)

lemma querySelector_dangling:
  "\<not> a < length (trees w) \<Longrightarrow> querySelector sel (a, p) w = None"
  by (simp add: querySelector_def querySelectorAll_def deref_def)

text \<open>
  What \<open>getHTML\<close> computes: the serialization of \<open>normalized B ed\<close> for the first element
  \<open>ed\<close> of class \<open>ql-editor\<close> below the mount, and a page that has that tree as one more
  detached tree.
\<close>

lemma getHTML_char:
  assumes "targetEl this < length (trees w)"
  shows "getHTML B this w =
     (case paths (matches (ClassSel ''ql-editor'')) (trees w ! targetEl this) of
        [] \<Rightarrow> (Inl (Error ''Couldn't find editor contents''), w)
      | p # ps \<Rightarrow>
          (let T = normalized B (the (node_at (trees w ! targetEl this) p))
           in (Inr (fragment_serialize B (childNodes T)), w\<lparr>trees := trees w @ [T]\<rparr>)))"
proof (cases "paths (matches (ClassSel ''ql-editor'')) (trees w ! targetEl this)")
  case Nil
  with assms show ?thesis by (simp add: getHTML_def querySelector_root)
next
  case (Cons p ps)
  let ?N = "length (trees w)"
  let ?t = "trees w ! targetEl this"
  let ?html = "fragment_serialize B (childNodes (the (node_at ?t p)))"
  let ?w1 = "w\<lparr>trees := trees w @ [Element ''div'' [] [] [] []]\<rparr>"
  let ?Div = "Element ''div'' [] [] [] (fragment_parse B ?html)"
  let ?w2 = "w\<lparr>trees := trees w @ [?Div]\<rparr>"
  let ?T = "normalized B (the (node_at ?t p))"
  have "p \<in> set (paths (matches (ClassSel ''ql-editor'')) ?t)" using Cons by simp
  then have ed: "\<exists>n. node_at ?t p = Some n" by (auto simp: in_paths)
  have q: "querySelector (ClassSel ''ql-editor'') (targetEl this, []) w = Some (targetEl this, p)"
    using Cons assms by (simp add: querySelector_root)
  have h: "get_innerHTML B (targetEl this, p) ?w1 = ?html"
    using assms ed by (auto simp: get_innerHTML_def deref_def nth_append)
  have w2: "set_innerHTML B (?N, []) ?html ?w1 = ?w2"
    by (simp add: set_innerHTML_def modify_def)
  have qa: "querySelectorAll (TagSel ''p'') (?N, []) ?w2 =
      map (Pair ?N) (paths (matches (TagSel ''p'')) ?Div)"
    by (simp add: querySelectorAll_def deref_def del: paths.simps)
  have w3: "fold (\<lambda>r w. style_zero r ''padding'' (style_zero r ''margin'' w))
              (map (Pair ?N) (paths (matches (TagSel ''p'')) ?Div)) ?w2
            = w\<lparr>trees := trees w @ [?T]\<rparr>"
    by (simp add: fold_style_zero fold_paths normalized_def del: paths.simps map_desc.simps)
  have out: "get_innerHTML B (?N, []) (w\<lparr>trees := trees w @ [?T]\<rparr>)
      = fragment_serialize B (childNodes ?T)"
    by (simp add: get_innerHTML_def deref_def)
  show ?thesis
    unfolding getHTML_def q createElement_def
    using Cons h w2 qa w3 out by (simp add: Let_def del: paths.simps map_desc.simps)
qed

lemma getHTML_dangling:
  "\<not> targetEl this < length (trees w) \<Longrightarrow>
   getHTML B this w = (Inl (Error ''Couldn't find editor contents''), w)"
  by (simp add: getHTML_def querySelector_dangling)

lemma editable_found_paths:
  assumes "targetEl this < length (trees w)"
  shows "editable_found this w \<longleftrightarrow>
   paths (matches (ClassSel ''ql-editor'')) (trees w ! targetEl this) \<noteq> []"
proof -
  have "paths (matches (ClassSel ''ql-editor'')) (trees w ! targetEl this) \<noteq> [] \<longleftrightarrow>
        (\<exists>p. p \<in> set (paths (matches (ClassSel ''ql-editor'')) (trees w ! targetEl this)))"
    by (cases "paths (matches (ClassSel ''ql-editor'')) (trees w ! targetEl this)") auto
  moreover have "editable_found this w \<longleftrightarrow>
      (\<exists>p n. p \<noteq> [] \<and> node_at (trees w ! targetEl this) p = Some n \<and>
             matches (ClassSel ''ql-editor'') n)"
    using assms by (simp add: editable_found_def deref_def)
  ultimately show ?thesis
    by (simp only: in_paths) blast
qed

lemma editable_found_dangling:
  "\<not> targetEl this < length (trees w) \<Longrightarrow> \<not> editable_found this w"
  by (simp add: editable_found_def deref_def)

text \<open>
  Claim C4. \<open>getHTML\<close> throws the error \<open>Couldn't find editor contents\<close> exactly when no
  descendant of the mount element has the class \<open>ql-editor\<close>; it throws nothing else, and
  it returns a string exactly when there is such a descendant.
\<close>

theorem getHTML_lookup_error:
  "(fst (getHTML B this w) = Inl (Error ''Couldn't find editor contents'')) =
     (\<not> editable_found this w) \<and>
   (\<exists>x. fst (getHTML B this w) = Inl x) = (\<not> editable_found this w) \<and>
   (\<exists>html. fst (getHTML B this w) = Inr html) = editable_found this w"
proof (cases "targetEl this < length (trees w)")
  case False
  then have "fst (getHTML B this w) = Inl (Error ''Couldn't find editor contents'')"
    by (simp add: getHTML_def querySelector_dangling)
  with False show ?thesis by (simp add: editable_found_dangling)
next
  case True
  show ?thesis
  proof (cases "paths (matches (ClassSel ''ql-editor'')) (trees w ! targetEl this)")
    case Nil
    with True have "fst (getHTML B this w) = Inl (Error ''Couldn't find editor contents'')"
      by (simp add: getHTML_def querySelector_root)
    with Nil True show ?thesis by (simp add: editable_found_paths)
  next
    case (Cons p ps)
    with True have "\<exists>html. fst (getHTML B this w) = Inr html"
      by (simp add: getHTML_def querySelector_root Let_def split_beta)
    with Cons True show ?thesis by (auto simp: editable_found_paths)
  qed
qed

text \<open>
  C4 on a mount that holds no editable element, where the call throws, and on the demo
  page, where it returns.
\<close>

theorem getHTML_lookup_error_witness:
  "fst (getHTML demo_browser demo_editor bare_world) =
     Inl (Error ''Couldn't find editor contents'') \<and>
   (\<exists>html. fst (getHTML demo_browser demo_editor demo_world) = Inr html)"
proof -
  have a: "\<not> editable_found demo_editor bare_world"
    by (simp add: editable_found_paths demo_defs)
  have b: "editable_found demo_editor demo_world"
    by (simp add: editable_found_paths demo_defs)
  from a b getHTML_lookup_error [of demo_browser demo_editor bare_world]
    getHTML_lookup_error [of demo_browser demo_editor demo_world]
  show ?thesis by blast
qed

text \<open>
  Claim C5. When \<open>getHTML\<close> returns, the string is the serialization of the children of
  the detached element after the loop. That element holds the content of the editable
  element, serialized and parsed again, with the style of every \<open>p\<close> element changed by
  the two assignments and nothing else changed (\<open>normalized\<close>); every \<open>p\<close> element in it
  has an inline style that sets margin and padding to zero on all four sides.
\<close>

theorem getHTML_paragraphs:
  assumes "getHTML B this w = (Inr html, w')"
  shows "\<exists>ref ed. querySelector (ClassSel ''ql-editor'') (targetEl this, []) w = Some ref \<and>
           deref w ref = Some ed \<and>
           trees w' = trees w @ [normalized B ed] \<and>
           html = fragment_serialize B (childNodes (normalized B ed)) \<and>
           (\<forall>p n. p \<noteq> [] \<and> node_at (normalized B ed) p = Some n \<and> matches (TagSel ''p'') n \<longrightarrow>
                  zero_box ''margin'' n \<and> zero_box ''padding'' n)"
proof (cases "paths (matches (ClassSel ''ql-editor'')) (trees w ! targetEl this)")
  case Nil
  have "targetEl this < length (trees w)"
    using assms getHTML_dangling [of this w B] by auto
  with Nil assms show ?thesis by (simp add: getHTML_char)
next
  case (Cons p ps)
  let ?t = "trees w ! targetEl this"
  have len: "targetEl this < length (trees w)"
    using assms getHTML_dangling [of this w B] by auto
  have "p \<in> set (paths (matches (ClassSel ''ql-editor'')) ?t)" using Cons by simp
  then obtain ed where ed: "node_at ?t p = Some ed" by (auto simp: in_paths)
  have q: "querySelector (ClassSel ''ql-editor'') (targetEl this, []) w = Some (targetEl this, p)"
    using Cons len by (simp add: querySelector_root)
  have d: "deref w (targetEl this, p) = Some ed"
    using ed len by (simp add: deref_def)
  from assms len Cons ed have "html = fragment_serialize B (childNodes (normalized B ed))"
    and "w' = w\<lparr>trees := trees w @ [normalized B ed]\<rparr>"
    by (simp_all add: getHTML_char Let_def)
  with q d normalized_paragraphs [of _ B ed] show ?thesis by auto
qed

lemma demo_getHTML:
  "getHTML demo_browser demo_editor demo_world =
     (Inr ''<p style=margin-top:0px;margin-right:0px;margin-bottom:0px;margin-left:0px;padding-top:0px;padding-right:0px;padding-bottom:0px;padding-left:0px;>Hello</p><h1 style=margin-top:5px;>World</h1>'',
      demo_world\<lparr>trees := trees demo_world @
        [Element ''div'' [] [] []
          [Element ''p'' [] []
             [(''margin-top'', ''0px''), (''margin-right'', ''0px''),
              (''margin-bottom'', ''0px''), (''margin-left'', ''0px''),
              (''padding-top'', ''0px''), (''padding-right'', ''0px''),
              (''padding-bottom'', ''0px''), (''padding-left'', ''0px'')]
             [Text ''Hello''],
           Element ''h1'' [] [] [(''margin-top'', ''5px'')] [Text ''World'']]]\<rparr>)"
  by (simp add: getHTML_def querySelector_def querySelectorAll_def deref_def createElement_def
      set_innerHTML_def get_innerHTML_def modify_def style_zero_def assign_zero_def longhands_def
      demo_defs)

text \<open>
  C5 on the demo page: the paragraph comes out with the eight declarations, the heading
  keeps its style.
\<close>

theorem getHTML_paragraphs_witness:
  "fst (getHTML demo_browser demo_editor demo_world) =
     Inr ''<p style=margin-top:0px;margin-right:0px;margin-bottom:0px;margin-left:0px;padding-top:0px;padding-right:0px;padding-bottom:0px;padding-left:0px;>Hello</p><h1 style=margin-top:5px;>World</h1>'' \<and>
   zero_box ''margin''
     (Element ''p'' [] []
        [(''margin-top'', ''0px''), (''margin-right'', ''0px''),
         (''margin-bottom'', ''0px''), (''margin-left'', ''0px''),
         (''padding-top'', ''0px''), (''padding-right'', ''0px''),
         (''padding-bottom'', ''0px''), (''padding-left'', ''0px'')]
        [Text ''Hello'']) \<and>
   zero_box ''padding''
     (Element ''p'' [] []
        [(''margin-top'', ''0px''), (''margin-right'', ''0px''),
         (''margin-bottom'', ''0px''), (''margin-left'', ''0px''),
         (''padding-top'', ''0px''), (''padding-right'', ''0px''),
         (''padding-bottom'', ''0px''), (''padding-left'', ''0px'')]
        [Text ''Hello''])"
proof -
  let ?para = "Element ''p'' [] []
        [(''margin-top'', ''0px''), (''margin-right'', ''0px''),
         (''margin-bottom'', ''0px''), (''margin-left'', ''0px''),
         (''padding-top'', ''0px''), (''padding-right'', ''0px''),
         (''padding-bottom'', ''0px''), (''padding-left'', ''0px'')]
        [Text ''Hello'']"
  let ?T = "Element ''div'' [] [] []
          [?para, Element ''h1'' [] [] [(''margin-top'', ''5px'')] [Text ''World'']]"
  from getHTML_paragraphs [OF demo_getHTML] obtain ed where
    t: "trees (demo_world\<lparr>trees := trees demo_world @ [?T]\<rparr>) =
        trees demo_world @ [normalized demo_browser ed]"
    and z: "\<forall>p n. p \<noteq> [] \<and> node_at (normalized demo_browser ed) p = Some n \<and>
                  matches (TagSel ''p'') n \<longrightarrow>
                  zero_box ''margin'' n \<and> zero_box ''padding'' n"
    by blast
  from t have T: "normalized demo_browser ed = ?T" by simp
  have "[0] \<noteq> [] \<and> node_at ?T [0] = Some ?para \<and> matches (TagSel ''p'') ?para" by simp
  with z T have "zero_box ''margin'' ?para \<and> zero_box ''padding'' ?para" by metis
  with demo_getHTML show ?thesis by simp
qed

text \<open>
  The page after \<open>getHTML\<close> is the page before it with detached trees added at fresh
  addresses, and a second call gives what the first gave.
\<close>

lemma getHTML_frame_mounted:
  assumes "targetEl this < length (trees w)"
  shows "\<exists>r extra. getHTML B this w = (r, w\<lparr>trees := trees w @ extra\<rparr>) \<and>
           fst (getHTML B this (w\<lparr>trees := trees w @ extra\<rparr>)) = r"
proof (cases "paths (matches (ClassSel ''ql-editor'')) (trees w ! targetEl this)")
  case Nil
  let ?r = "Inl (Error ''Couldn't find editor contents'') :: exn + string"
  from Nil assms have "getHTML B this w = (?r, w\<lparr>trees := trees w @ []\<rparr>)"
    by (simp add: getHTML_char)
  moreover from Nil assms have "fst (getHTML B this (w\<lparr>trees := trees w @ []\<rparr>)) = ?r"
    by (simp add: getHTML_char)
  ultimately show ?thesis by blast
next
  case (Cons p ps)
  let ?T = "normalized B (the (node_at (trees w ! targetEl this) p))"
  let ?r = "Inr (fragment_serialize B (childNodes ?T)) :: exn + string"
  let ?w' = "w\<lparr>trees := trees w @ [?T]\<rparr>"
  from Cons assms have a: "getHTML B this w = (?r, ?w')"
    by (simp add: getHTML_char Let_def)
  have len: "targetEl this < length (trees ?w')" using assms by simp
  have same: "trees ?w' ! targetEl this = trees w ! targetEl this"
    using assms by (simp add: nth_append)
  have "fst (getHTML B this ?w') = ?r"
    unfolding getHTML_char [OF len] same using Cons by (simp add: Let_def)
  with a show ?thesis by blast
qed

lemma getHTML_frame:
  "\<exists>r extra. getHTML B this w = (r, w\<lparr>trees := trees w @ extra\<rparr>) \<and>
     fst (getHTML B this (w\<lparr>trees := trees w @ extra\<rparr>)) = r"
proof (cases "targetEl this < length (trees w)")
  case True
  then show ?thesis by (rule getHTML_frame_mounted)
next
  case False
  let ?r = "Inl (Error ''Couldn't find editor contents'') :: exn + string"
  from False have "getHTML B this w = (?r, w\<lparr>trees := trees w @ []\<rparr>)"
    by (simp add: getHTML_dangling)
  moreover from False have "fst (getHTML B this (w\<lparr>trees := trees w @ []\<rparr>)) = ?r"
    by (simp add: getHTML_dangling)
  ultimately show ?thesis by blast
qed

text \<open>
  Claim C10. \<open>getHTML\<close> only observes. The trees that were on the page, the mount and the
  editable element among them, are as they were, and so is every node a reference into
  them reads: what the call adds is a detached tree at an address that was not in use, and
  the assignments of the loop go to that tree. The widget instances, the emitters, the
  registry and the record of handler calls are as they were, and calling \<open>getHTML\<close> again
  on the page it leaves gives the same result.
\<close>

theorem getHTML_observes:
  assumes "getHTML B this w = (r, w')"
  shows "(\<exists>extra. w' = w\<lparr>trees := trees w @ extra\<rparr>) \<and>
         take (length (trees w)) (trees w') = trees w \<and>
         (\<forall>a p. a < length (trees w) \<longrightarrow> deref w' (a, p) = deref w (a, p)) \<and>
         quills w' = quills w \<and> emitters w' = emitters w \<and> registry w' = registry w \<and>
         invoked w' = invoked w \<and>
         fst (getHTML B this w') = r"
proof -
  from getHTML_frame [of B this w] assms obtain extra where
    w': "w' = w\<lparr>trees := trees w @ extra\<rparr>" and again: "fst (getHTML B this w') = r"
    by auto
  have "\<forall>a p. a < length (trees w) \<longrightarrow> deref w' (a, p) = deref w (a, p)"
    by (simp add: w' deref_def nth_append)
  with w' again show ?thesis by auto
qed

text \<open>C10 on the demo page: the one tree of the page is kept, and so is the result.\<close>

theorem getHTML_observes_witness:
  "deref (snd (getHTML demo_browser demo_editor demo_world)) (0, [0]) = deref demo_world (0, [0]) \<and>
   take 1 (trees (snd (getHTML demo_browser demo_editor demo_world))) = trees demo_world \<and>
   quills (snd (getHTML demo_browser demo_editor demo_world)) = quills demo_world \<and>
   fst (getHTML demo_browser demo_editor (snd (getHTML demo_browser demo_editor demo_world))) =
     fst (getHTML demo_browser demo_editor demo_world)"
proof -
  have "length (trees demo_world) = 1" by (simp add: demo_defs)
  with getHTML_observes [OF surjective_pairing, of demo_browser demo_editor demo_world]
  show ?thesis by simp
qed

section \<open>The constructor\<close>





section \<open>The change notification\<close>


lemma count_list_map_filter:
  "count_list (map (\<lambda>l. (l_fn l, args)) (filter P ls)) (h, args) =
   length (filter (\<lambda>l. P l \<and> l_fn l = h) ls)"
  by (induction ls) auto














end
